theory Spec2Isabelle
  imports Main "HOL-Library.Sublist"
begin

section \<open>JavaScript values and strings\<close>

text \<open>
  The handlers of \<^verbatim>\<open>server.js\<close> read \<^verbatim>\<open>title\<close> and \<^verbatim>\<open>author\<close> out of a parsed JSON body,
  so each of them is an arbitrary JSON value, or \<^verbatim>\<open>undefined\<close> when the key is missing.
  Only \<^verbatim>\<open>typeof v === "string"\<close>, \<^verbatim>\<open>v === undefined\<close> and the truthiness \<^verbatim>\<open>!v\<close> are ever
  asked of such a value. Numbers are kept as integers: the code only tests them for
  being zero.
\<close>

datatype jsval =
    JUndefined
  | JNull
  | JBool bool
  | JNum int
  | JStr string
  | JArray "jsval list"
  | JObject "(string \<times> jsval) list"

text \<open>\<^verbatim>\<open>typeof v === "string"\<close>\<close>

fun isString :: "jsval \<Rightarrow> bool" where
  "isString (JStr s) = True"
| "isString v = False"

text \<open>JavaScript's ToBoolean: \<^verbatim>\<open>!v\<close> is \<open>\<not> truthy v\<close>.\<close>

fun truthy :: "jsval \<Rightarrow> bool" where
  "truthy JUndefined = False"
| "truthy JNull = False"
| "truthy (JBool b) = b"
| "truthy (JNum n) = (n \<noteq> 0)"
| "truthy (JStr s) = (s \<noteq> [])"
| "truthy (JArray xs) = True"
| "truthy (JObject kvs) = True"

text \<open>
  A string is a list of code units; a \<^typ>\<open>char\<close> stands for the code unit of the same
  number, so a \<^typ>\<open>string\<close> is Latin-1 text and nothing else. The white space that
  \<^verbatim>\<open>trim\<close> and \<^verbatim>\<open>parseInt\<close> strip is, in this range, TAB, LF, VT, FF, CR, SPACE and
  NBSP.
\<close>

definition isWhiteSpace :: "char \<Rightarrow> bool" where
  "isWhiteSpace c \<longleftrightarrow>
     c = CHR 0x09 \<or> c = CHR 0x0A \<or> c = CHR 0x0B \<or> c = CHR 0x0C \<or> c = CHR 0x0D \<or>
     c = CHR 0x20 \<or> c = CHR 0xA0"

text \<open>\<^verbatim>\<open>String.prototype.trim\<close>: white space is removed at both ends.\<close>

definition trim :: "string \<Rightarrow> string" where
  "trim s = rev (dropWhile isWhiteSpace (rev (dropWhile isWhiteSpace s)))"

section \<open>The validator of POST /books\<close>

record validation =
  isValid :: bool
  errors :: "string list"

text \<open>
  \<^verbatim>\<open>validateBookData(title, author)\<close>, lines 59 to 90. The array \<^verbatim>\<open>errors\<close> grows by
  \<^verbatim>\<open>push\<close>; each of the four \<^verbatim>\<open>if\<close> statements is one step below.
\<close>

definition pushIf :: "bool \<Rightarrow> string \<Rightarrow> string list \<Rightarrow> string list" where
  "pushIf cond msg errs = (if cond then errs @ [msg] else errs)"

fun trimsToEmpty :: "jsval \<Rightarrow> bool" where
  "trimsToEmpty (JStr s) = (trim s = [])"
| "trimsToEmpty v = False"

definition validateBookData :: "jsval \<Rightarrow> jsval \<Rightarrow> validation" where
  "validateBookData reqTitle reqAuthor =
     (if reqTitle = JUndefined \<or> reqAuthor = JUndefined then
        \<lparr>isValid = False, errors = [''Title and author are required fields'']\<rparr>
      else
        let errs0 = [];
            errs1 = pushIf (\<not> isString reqTitle) ''Title must be a string'' errs0;
            errs2 = pushIf (\<not> isString reqAuthor) ''Author must be a string'' errs1;
            errs3 = pushIf (isString reqTitle \<and> trimsToEmpty reqTitle) ''Title cannot be empty'' errs2;
            errs4 = pushIf (isString reqAuthor \<and> trimsToEmpty reqAuthor) ''Author cannot be empty'' errs3
        in \<lparr>isValid = (length errs4 = 0), errors = errs4\<rparr>)"

text \<open>
  The specification's reading of the same checks: a field is blank when it is a string
  made of white space only, and the per-field errors are the applicable ones among four
  candidates, in this order.
\<close>

fun isBlankString :: "jsval \<Rightarrow> bool" where
  "isBlankString (JStr s) = list_all isWhiteSpace s"
| "isBlankString v = False"

definition applicableErrors :: "jsval \<Rightarrow> jsval \<Rightarrow> string list" where
  "applicableErrors reqTitle reqAuthor =
     map snd (filter fst
       [(\<not> isString reqTitle, ''Title must be a string''),
        (\<not> isString reqAuthor, ''Author must be a string''),
        (isBlankString reqTitle, ''Title cannot be empty''),
        (isBlankString reqAuthor, ''Author cannot be empty'')])"

section \<open>More of the string library\<close>

text \<open>
  \<^verbatim>\<open>String.prototype.toLowerCase\<close> on Latin-1 text: the letters A to Z and the
  accented capitals 0xC0 to 0xDE (but the multiplication sign 0xD7) move up by 32. In
  this range no code unit's lowercase depends on its neighbours or is longer than one
  code unit; beyond it that is not so, see \<open>toLowerCaseW\<close> further down.
\<close>

definition toLowerChar :: "char \<Rightarrow> char" where
  "toLowerChar c =
     (let n = (of_char c :: nat)
      in if (65 \<le> n \<and> n \<le> 90) \<or> (192 \<le> n \<and> n \<le> 214) \<or> (216 \<le> n \<and> n \<le> 222)
         then char_of (n + 32) else c)"

definition toLowerCase :: "string \<Rightarrow> string" where
  "toLowerCase s = map toLowerChar s"

text \<open>
  \<^verbatim>\<open>String.prototype.includes\<close>: the search string occurs at some position. (The name
  carries a suffix because \<^verbatim>\<open>includes\<close> is a keyword of the proof language.)
\<close>

fun includesStr :: "'a list \<Rightarrow> 'a list \<Rightarrow> bool" where
  "includesStr [] q = (q = [])"
| "includesStr (c # cs) q = (prefix q (c # cs) \<or> includesStr cs q)"

text \<open>
  The numbers \<^verbatim>\<open>parseInt\<close> can return: \<^verbatim>\<open>NaN\<close>, the two infinities, and the doubles
  whose value is an integer (minus zero counts as zero: \<^verbatim>\<open>-0 <= 0\<close> holds).
\<close>

datatype number = NaN | Finite int | PlusInfinity | MinusInfinity

text \<open>
  The number of binary digits of a positive integer, so that \<open>bitLength n \<le> k\<close> says
  \<open>n < 2 ^ k\<close>.
\<close>

function bitLength :: "int \<Rightarrow> nat" where
  "bitLength n = (if n \<le> 0 then 0 else Suc (bitLength (n div 2)))"
  by pat_completeness auto
termination
  by (relation "measure nat") auto

declare bitLength.simps [simp del]

text \<open>
  The double nearest to an integer of the given sign and magnitude (round to nearest,
  ties to even, as ECMAScript's conversion of a mathematical value to a Number). Below
  \<open>2 ^ 53\<close> every integer is a double. From there on the 53 leading binary digits are
  kept and the rest is rounded off; a result of \<open>2 ^ 1024\<close> or more is infinite.
\<close>

definition toNumber :: "bool \<Rightarrow> int \<Rightarrow> number" where
  "toNumber negative n =
     (if bitLength n \<le> 53 then Finite (if negative then - n else n)
      else
        let e = bitLength n - 53;
            q = n div 2 ^ e;
            r = n mod 2 ^ e;
            half = 2 ^ (e - 1);
            m = (if half < r \<or> (r = half \<and> odd q) then q + 1 else q);
            v = m * 2 ^ e
        in if 1024 < bitLength v then (if negative then MinusInfinity else PlusInfinity)
           else Finite (if negative then - v else v))"

text \<open>
  \<^verbatim>\<open>parseInt(string)\<close> with no radix, as ECMAScript defines it: leading white space is
  skipped, one sign is read, \<^verbatim>\<open>0x\<close> or \<^verbatim>\<open>0X\<close> selects radix 16 (radix 10 otherwise), and
  the longest run of digits of that radix is the numeral; whatever follows is ignored.
  With no digit at all the result is \<^verbatim>\<open>NaN\<close>; otherwise it is the double nearest to the
  signed value of the numeral. (For a decimal numeral of more than 20 significant
  digits the standard lets an implementation read the digits after the 20th as 0; V8
  does not. A numeral of value at most \<open>2 ^ 53\<close> has at most 16.)
\<close>

definition digitValue :: "char \<Rightarrow> nat option" where
  "digitValue c =
     (let n = (of_char c :: nat)
      in if 48 \<le> n \<and> n \<le> 57 then Some (n - 48)
         else if 97 \<le> n \<and> n \<le> 122 then Some (n - 87)
         else if 65 \<le> n \<and> n \<le> 90 then Some (n - 55)
         else None)"

definition isRadixDigit :: "nat \<Rightarrow> char \<Rightarrow> bool" where
  "isRadixDigit R c = (case digitValue c of None \<Rightarrow> False | Some d \<Rightarrow> d < R)"

definition numeralValue :: "nat \<Rightarrow> string \<Rightarrow> int" where
  "numeralValue R z =
     foldl (\<lambda>acc c. case digitValue c of None \<Rightarrow> acc | Some d \<Rightarrow> acc * int R + int d) 0 z"

definition parseInt :: "string \<Rightarrow> number" where
  "parseInt inputString =
     (let s0 = dropWhile isWhiteSpace inputString;
          negative = (s0 \<noteq> [] \<and> hd s0 = CHR ''-'');
          s1 = (if s0 \<noteq> [] \<and> (hd s0 = CHR ''+'' \<or> hd s0 = CHR ''-'') then tl s0 else s0);
          hex = (take 2 s1 = ''0x'' \<or> take 2 s1 = ''0X'');
          R = (if hex then 16 else 10);
          s2 = (if hex then drop 2 s1 else s1);
          z = takeWhile (isRadixDigit R) s2
      in if z = [] then NaN else toNumber negative (numeralValue R z))"

section \<open>The store\<close>

text \<open>
  The module-level variables \<^verbatim>\<open>books\<close> and \<^verbatim>\<open>nextId\<close> (lines 28 and 31) are the whole
  state. A book's field \<^verbatim>\<open>id\<close> is called \<open>bookId\<close> here, \<open>id\<close> being the identity
  function of HOL. Timestamps are the strings that \<^verbatim>\<open>new Date().toISOString()\<close> returns;
  a handler receives the clock's readings as arguments.
\<close>

type_synonym timestamp = string

record book =
  bookId :: int
  title :: string
  author :: string
  createdAt :: timestamp
  updatedAt :: timestamp

record store =
  books :: "book list"
  nextId :: int

definition initial :: store where
  "initial = \<lparr>books = [], nextId = 1\<rparr>"

datatype error =
    InvalidFormat
  | NotPositive
  | NotFound number
  | NoFieldsProvided
  | TitleNotString
  | TitleEmpty
  | AuthorNotString
  | AuthorEmpty
  | EmptyQuery
  | InternalError

text \<open>
  What a handler sends: one constructor for each shape of body, with the fields the
  body carries; \<open>Failed\<close> holds the status code and the error.
\<close>

datatype response =
    BookList nat "book list"
  | OneBook book
  | Created book
  | Updated "string list" book
  | Deleted int string string
  | DeletedAll nat "book list"
  | SearchResult string nat "book list"
  | Invalid "string list"
  | Failed nat error

text \<open>\<^verbatim>\<open>Array.prototype.findIndex\<close>; \<open>None\<close> is the result -1.\<close>

fun findIndex :: "('a \<Rightarrow> bool) \<Rightarrow> 'a list \<Rightarrow> nat option" where
  "findIndex P [] = None"
| "findIndex P (x # xs) = (if P x then Some 0 else map_option Suc (findIndex P xs))"

text \<open>\<^verbatim>\<open>findBookById(id)\<close>, lines 42 to 51.\<close>

definition findBookById :: "store \<Rightarrow> int \<Rightarrow> (book \<times> nat) option" where
  "findBookById st i =
     (case findIndex (\<lambda>b. bookId b = i) (books st) of
        None \<Rightarrow> None
      | Some index \<Rightarrow> Some (books st ! index, index))"

subsection \<open>GET /books and GET /books/:id\<close>

definition getBooks :: "store \<Rightarrow> response \<times> store" where
  "getBooks st = (BookList (length (books st)) (books st), st)"

text \<open>
  Lines 138 to 150: what the handler does once the id is accepted. The three handlers
  that take an id test \<^verbatim>\<open>isNaN(id)\<close>, then \<^verbatim>\<open>id <= 0\<close>, then look the id up. No book
  has the id \<^verbatim>\<open>Infinity\<close> (the counter counts up from 1), so with that id the lookup
  finds nothing and the answer is 404.
\<close>

definition getBookWithId :: "int \<Rightarrow> store \<Rightarrow> response \<times> store" where
  "getBookWithId i st =
     (case findBookById st i of
        None \<Rightarrow> (Failed 404 (NotFound (Finite i)), st)
      | Some (b, index) \<Rightarrow> (OneBook b, st))"

definition getBook :: "string \<Rightarrow> store \<Rightarrow> response \<times> store" where
  "getBook idParam st =
     (case parseInt idParam of
        NaN \<Rightarrow> (Failed 400 InvalidFormat, st)
      | MinusInfinity \<Rightarrow> (Failed 400 NotPositive, st)
      | PlusInfinity \<Rightarrow> (Failed 404 (NotFound PlusInfinity), st)
      | Finite i \<Rightarrow>
          if i \<le> 0 then (Failed 400 NotPositive, st)
          else getBookWithId i st)"

subsection \<open>POST /books\<close>

text \<open>
  Lines 159 to 206. The clock is read twice, for \<^verbatim>\<open>createdAt\<close> and for \<^verbatim>\<open>updatedAt\<close>.
  \<^verbatim>\<open>title.trim()\<close> on a value that is no string would throw; the validation excludes it,
  and the model answers that branch with the error handler's status 500.
\<close>

definition postBook :: "timestamp \<Rightarrow> timestamp \<Rightarrow> jsval \<Rightarrow> jsval \<Rightarrow> store \<Rightarrow> response \<times> store" where
  "postBook now1 now2 reqTitle reqAuthor st =
     (let validation = validateBookData reqTitle reqAuthor
      in if \<not> isValid validation then (Invalid (errors validation), st)
         else
           (case (reqTitle, reqAuthor) of
              (JStr t, JStr a) \<Rightarrow>
                let newBook = \<lparr>bookId = nextId st, title = trim t, author = trim a,
                                createdAt = now1, updatedAt = now2\<rparr>
                in (Created newBook, \<lparr>books = books st @ [newBook], nextId = nextId st + 1\<rparr>)
            | _ \<Rightarrow> (Failed 500 InternalError, st)))"

subsection \<open>PUT /books/:id\<close>

text \<open>Assignments to one field of \<^verbatim>\<open>books[result.index]\<close>.\<close>

definition setTitle :: "nat \<Rightarrow> string \<Rightarrow> store \<Rightarrow> store" where
  "setTitle index v st = st\<lparr>books := (books st)[index := (books st ! index)\<lparr>title := v\<rparr>]\<rparr>"

definition setAuthor :: "nat \<Rightarrow> string \<Rightarrow> store \<Rightarrow> store" where
  "setAuthor index v st = st\<lparr>books := (books st)[index := (books st ! index)\<lparr>author := v\<rparr>]\<rparr>"

definition setUpdatedAt :: "nat \<Rightarrow> timestamp \<Rightarrow> store \<Rightarrow> store" where
  "setUpdatedAt index v st =
     st\<lparr>books := (books st)[index := (books st ! index)\<lparr>updatedAt := v\<rparr>]\<rparr>"

text \<open>
  Lines 266 to 281 and 284 to 299: the two \<^verbatim>\<open>if (field !== undefined)\<close> blocks. Each
  either returns early with an error (\<open>Inl\<close>) or goes on with the list
  \<^verbatim>\<open>updatedFields\<close> and the store as it has left them (\<open>Inr\<close>).
\<close>

definition updateTitle ::
    "nat \<Rightarrow> jsval \<Rightarrow> string list \<times> store \<Rightarrow> error + string list \<times> store" where
  "updateTitle index reqTitle acc =
     (case acc of (updatedFields, st) \<Rightarrow>
        if reqTitle \<noteq> JUndefined then
          (case reqTitle of
             JStr s \<Rightarrow>
               if trim s = [] then Inl TitleEmpty
               else Inr (updatedFields @ [''title''], setTitle index (trim s) st)
           | _ \<Rightarrow> Inl TitleNotString)
        else Inr (updatedFields, st))"

definition updateAuthor ::
    "nat \<Rightarrow> jsval \<Rightarrow> string list \<times> store \<Rightarrow> error + string list \<times> store" where
  "updateAuthor index reqAuthor acc =
     (case acc of (updatedFields, st) \<Rightarrow>
        if reqAuthor \<noteq> JUndefined then
          (case reqAuthor of
             JStr s \<Rightarrow>
               if trim s = [] then Inl AuthorEmpty
               else Inr (updatedFields @ [''author''], setAuthor index (trim s) st)
           | _ \<Rightarrow> Inl AuthorNotString)
        else Inr (updatedFields, st))"

text \<open>
  Lines 236 to 314, after the id is accepted. An early return inside the author block
  leaves the store as the title block has written it.
\<close>

definition putBookWithId ::
    "timestamp \<Rightarrow> int \<Rightarrow> jsval \<Rightarrow> jsval \<Rightarrow> store \<Rightarrow> response \<times> store" where
  "putBookWithId now i reqTitle reqAuthor st =
     (case findBookById st i of
        None \<Rightarrow> (Failed 404 (NotFound (Finite i)), st)
      | Some (b, index) \<Rightarrow>
          if \<not> truthy reqTitle \<and> \<not> truthy reqAuthor then (Failed 400 NoFieldsProvided, st)
          else
            (case updateTitle index reqTitle ([], st) of
               Inl e \<Rightarrow> (Failed 400 e, st)
             | Inr (fields1, st1) \<Rightarrow>
                 (case updateAuthor index reqAuthor (fields1, st1) of
                    Inl e \<Rightarrow> (Failed 400 e, st1)
                  | Inr (fields2, st2) \<Rightarrow>
                      let st3 = setUpdatedAt index now st2
                      in (Updated fields2 (books st3 ! index), st3))))"

definition putBook ::
    "timestamp \<Rightarrow> string \<Rightarrow> jsval \<Rightarrow> jsval \<Rightarrow> store \<Rightarrow> response \<times> store" where
  "putBook now idParam reqTitle reqAuthor st =
     (case parseInt idParam of
        NaN \<Rightarrow> (Failed 400 InvalidFormat, st)
      | MinusInfinity \<Rightarrow> (Failed 400 NotPositive, st)
      | PlusInfinity \<Rightarrow> (Failed 404 (NotFound PlusInfinity), st)
      | Finite i \<Rightarrow>
          if i \<le> 0 then (Failed 400 NotPositive, st)
          else putBookWithId now i reqTitle reqAuthor st)"

subsection \<open>DELETE /books/:id and DELETE /books\<close>

text \<open>\<^verbatim>\<open>books.splice(index, 1)\<close>\<close>

definition splice1 :: "nat \<Rightarrow> 'a list \<Rightarrow> 'a list" where
  "splice1 index xs = take index xs @ drop (Suc index) xs"

definition deleteBookWithId :: "int \<Rightarrow> store \<Rightarrow> response \<times> store" where
  "deleteBookWithId i st =
     (case findBookById st i of
        None \<Rightarrow> (Failed 404 (NotFound (Finite i)), st)
      | Some (b, index) \<Rightarrow>
          (Deleted i (title (books st ! index)) (author (books st ! index)),
           st\<lparr>books := splice1 index (books st)\<rparr>))"

definition deleteBook :: "string \<Rightarrow> store \<Rightarrow> response \<times> store" where
  "deleteBook idParam st =
     (case parseInt idParam of
        NaN \<Rightarrow> (Failed 400 InvalidFormat, st)
      | MinusInfinity \<Rightarrow> (Failed 400 NotPositive, st)
      | PlusInfinity \<Rightarrow> (Failed 404 (NotFound PlusInfinity), st)
      | Finite i \<Rightarrow>
          if i \<le> 0 then (Failed 400 NotPositive, st)
          else deleteBookWithId i st)"

definition deleteBooks :: "store \<Rightarrow> response \<times> store" where
  "deleteBooks st =
     (let count = length (books st);
          deletedBooks = books st
      in (DeletedAll count deletedBooks, \<lparr>books = [], nextId = 1\<rparr>))"

subsection \<open>GET /books/search/:query\<close>

definition searchBooks :: "string \<Rightarrow> store \<Rightarrow> response \<times> store" where
  "searchBooks queryParam st =
     (let query = toLowerCase queryParam
      in if query = [] \<or> trim query = [] then (Failed 400 EmptyQuery, st)
         else
           let results = filter (\<lambda>b. includesStr (toLowerCase (title b)) query \<or>
                                      includesStr (toLowerCase (author b)) query) (books st)
           in (SearchResult queryParam (length results) results, st))"

subsection \<open>The search filter on text beyond Latin-1\<close>

text \<open>
  A \<^typ>\<open>string\<close> holds Latin-1 text only, where \<^verbatim>\<open>toLowerCase\<close> maps each code unit by
  itself. On other text it does not: a Greek capital sigma becomes the final form of the
  small sigma when a cased letter stands before it and none after it, and the ordinary
  small sigma otherwise (the Final_Sigma rule of Unicode's SpecialCasing, the one
  context rule that \<^verbatim>\<open>toLowerCase\<close> applies). The definitions below are
  \<^verbatim>\<open>toLowerCase\<close> and the callback of \<^verbatim>\<open>books.filter\<close> (lines 421 to 425) on lists of
  UTF-16 code units, for text made of the space, the letters A to Z and a to z, and the
  Greek letters alpha to omega in both cases; these are all cased letters but the
  space, and none of them is case-ignorable. Text with any other code unit is left
  out: the result is \<open>None\<close>.
\<close>

type_synonym ustring = "int list"

definition isModelledUnit :: "int \<Rightarrow> bool" where
  "isModelledUnit c \<longleftrightarrow>
     c = 32 \<or> (65 \<le> c \<and> c \<le> 90) \<or> (97 \<le> c \<and> c \<le> 122) \<or>
     (913 \<le> c \<and> c \<le> 937 \<and> c \<noteq> 930) \<or> (945 \<le> c \<and> c \<le> 969)"

definition isCasedUnit :: "int \<Rightarrow> bool" where
  "isCasedUnit c \<longleftrightarrow> isModelledUnit c \<and> c \<noteq> 32"

text \<open>The capital letters (A to Z, and 913 to 937 for Alpha to Omega) move up by 32.\<close>

definition lowerUnit :: "int \<Rightarrow> int" where
  "lowerUnit c = (if (65 \<le> c \<and> c \<le> 90) \<or> (913 \<le> c \<and> c \<le> 937) then c + 32 else c)"

text \<open>
  The capital sigma is 931, the small sigma 963 and its final form 962. The flag says
  whether a cased letter stands before the current code unit.
\<close>

fun lowerUnits :: "bool \<Rightarrow> ustring \<Rightarrow> ustring" where
  "lowerUnits casedBefore [] = []"
| "lowerUnits casedBefore (c # cs) =
     (if c = 931
      then (if casedBefore \<and> \<not> (cs \<noteq> [] \<and> isCasedUnit (hd cs)) then 962 else 963)
      else lowerUnit c) # lowerUnits (isCasedUnit c) cs"

definition toLowerCaseW :: "ustring \<Rightarrow> ustring option" where
  "toLowerCaseW s = (if list_all isModelledUnit s then Some (lowerUnits False s) else None)"

definition searchMatchesW :: "ustring \<Rightarrow> ustring \<Rightarrow> ustring \<Rightarrow> bool option" where
  "searchMatchesW queryParam bookTitle bookAuthor =
     (case (toLowerCaseW queryParam, toLowerCaseW bookTitle, toLowerCaseW bookAuthor) of
        (Some query, Some t, Some a) \<Rightarrow> Some (includesStr t query \<or> includesStr a query)
      | _ \<Rightarrow> None)"

text \<open>
  A Latin-1 string as a list of code units, and the strings made of spaces and the
  letters A to Z and a to z, on which the two readings of the filter can be compared.
\<close>

definition units :: "string \<Rightarrow> ustring" where
  "units s = map (\<lambda>c. int (of_char c)) s"

definition plainText :: "string \<Rightarrow> bool" where
  "plainText s \<longleftrightarrow>
     list_all (\<lambda>c. (of_char c :: nat) = 32 \<or> (65 \<le> (of_char c :: nat) \<and> (of_char c :: nat) \<le> 90) \<or>
                   (97 \<le> (of_char c :: nat) \<and> (of_char c :: nat) \<le> 122)) s"

subsection \<open>Sequences of requests\<close>

datatype request =
    GetBooks
  | GetBook string
  | PostBook timestamp timestamp jsval jsval
  | PutBook timestamp string jsval jsval
  | DeleteBook string
  | DeleteBooks
  | SearchBooks string

fun handle :: "request \<Rightarrow> store \<Rightarrow> response \<times> store" where
  "handle GetBooks st = getBooks st"
| "handle (GetBook idParam) st = getBook idParam st"
| "handle (PostBook now1 now2 reqTitle reqAuthor) st = postBook now1 now2 reqTitle reqAuthor st"
| "handle (PutBook now idParam reqTitle reqAuthor) st = putBook now idParam reqTitle reqAuthor st"
| "handle (DeleteBook idParam) st = deleteBook idParam st"
| "handle DeleteBooks st = deleteBooks st"
| "handle (SearchBooks queryParam) st = searchBooks queryParam st"

text \<open>The requests are served one at a time; \<open>run\<close> gives the responses and the last store.\<close>

fun run :: "store \<Rightarrow> request list \<Rightarrow> response list \<times> store" where
  "run st [] = ([], st)"
| "run st (r # rs) =
     (case handle r st of (resp, st') \<Rightarrow>
        (case run st' rs of (resps, st'') \<Rightarrow> (resp # resps, st'')))"

text \<open>The ids handed out: those of the books in the 201 responses, in order.\<close>

fun issuedIds :: "response list \<Rightarrow> int list" where
  "issuedIds [] = []"
| "issuedIds (Created b # resps) = bookId b # issuedIds resps"
| "issuedIds (resp # resps) = issuedIds resps"

text \<open>A POST request whose body passes the validation.\<close>

fun validPost :: "request \<Rightarrow> bool" where
  "validPost (PostBook now1 now2 reqTitle reqAuthor) = isValid (validateBookData reqTitle reqAuthor)"
| "validPost r = False"

text \<open>The count and the data of a response that carries a collection.\<close>

fun countOf :: "response \<Rightarrow> nat option" where
  "countOf (BookList n bs) = Some n"
| "countOf (DeletedAll n bs) = Some n"
| "countOf (SearchResult q n bs) = Some n"
| "countOf resp = None"

fun dataOf :: "response \<Rightarrow> book list option" where
  "dataOf (BookList n bs) = Some bs"
| "dataOf (DeletedAll n bs) = Some bs"
| "dataOf (SearchResult q n bs) = Some bs"
| "dataOf resp = None"


text \<open>The store's invariant: ids are positive, below the counter, and pairwise different.\<close>

definition storeInv :: "store \<Rightarrow> bool" where
  "storeInv st \<longleftrightarrow>
     0 < nextId st \<and> list_all (\<lambda>b. 0 < bookId b \<and> bookId b < nextId st) (books st) \<and>
     distinct (map bookId (books st))"

subsection \<open>Stores used as examples\<close>

definition gatsby :: book where
  "gatsby = \<lparr>bookId = 1, title = ''The Great Gatsby'', author = ''F. Scott Fitzgerald'',
             createdAt = ''2024-01-01T00:00:00.000Z'', updatedAt = ''2024-01-01T00:00:00.000Z''\<rparr>"

definition hobbit :: book where
  "hobbit = \<lparr>bookId = 2, title = ''The Hobbit'', author = ''J.R.R. Tolkien'',
             createdAt = ''2024-01-02T00:00:00.000Z'', updatedAt = ''2024-01-02T00:00:00.000Z''\<rparr>"

definition shelf :: store where
  "shelf = \<lparr>books = [gatsby, hobbit], nextId = 3\<rparr>"



definition dune :: request where
  "dune = PostBook ''2024-01-01T00:00:00.000Z'' ''2024-01-01T00:00:00.001Z''
            (JStr ''Dune'') (JStr '' Frank Herbert '')"

definition emma :: request where
  "emma = PostBook ''2024-01-02T00:00:00.000Z'' ''2024-01-02T00:00:00.000Z''
            (JStr ''Emma'') (JStr ''Jane Austen'')"

section \<open>Facts about strings\<close>

lemma trim_Nil_iff: "trim s = [] \<longleftrightarrow> list_all isWhiteSpace s"
proof
  assume "trim s = []"
  then have a: "\<forall>c\<in>set (dropWhile isWhiteSpace s). isWhiteSpace c"
    by (simp add: trim_def)
  show "list_all isWhiteSpace s"
  proof (cases "dropWhile isWhiteSpace s")
    case Nil
    then show ?thesis by (simp add: list_all_iff)
  next
    case (Cons c cs)
    then have "\<not> isWhiteSpace c"
      by (metis hd_dropWhile list.sel(1) list.distinct(1))
    with a Cons show ?thesis by simp
  qed
next
  assume "list_all isWhiteSpace s"
  then have "dropWhile isWhiteSpace s = []" by (simp add: list_all_iff)
  then show "trim s = []" by (auto simp: trim_def dest: set_dropWhileD)
qed

lemma trimsToEmpty_iff: "trimsToEmpty v \<longleftrightarrow> isBlankString v"
  by (cases v) (simp_all add: trim_Nil_iff)

lemma isBlankString_isString: "isBlankString v \<Longrightarrow> isString v"
  by (cases v) simp_all

lemma of_char_eq_iff': "(c = d) = ((of_char c :: nat) = of_char d)"
  by (metis char_of_char)

lemma isWhiteSpace_code:
  "isWhiteSpace c \<longleftrightarrow> (of_char c :: nat) \<in> {9, 10, 11, 12, 13, 32, 160}"
  unfolding isWhiteSpace_def
  by (simp add: of_char_eq_iff' [of c])





section \<open>Facts about the search filter on code units\<close>

lemma lowerUnit_plain:
  assumes "(of_char c :: nat) = 32 \<or> (65 \<le> (of_char c :: nat) \<and> (of_char c :: nat) \<le> 90) \<or>
           (97 \<le> (of_char c :: nat) \<and> (of_char c :: nat) \<le> 122)"
  shows "lowerUnit (int (of_char c)) = int (of_char (toLowerChar c))"
    "int (of_char c) \<noteq> 931" "isModelledUnit (int (of_char c))"
  using assms
  by (auto simp: lowerUnit_def toLowerChar_def isModelledUnit_def Let_def)

lemma lowerUnits_plain:
  "plainText s \<Longrightarrow> lowerUnits casedBefore (units s) = units (toLowerCase s)"
proof (induction s arbitrary: casedBefore)
  case Nil
  then show ?case by (simp add: units_def toLowerCase_def)
next
  case (Cons c s)
  from Cons.prems have c: "(of_char c :: nat) = 32 \<or> (65 \<le> (of_char c :: nat) \<and> (of_char c :: nat) \<le> 90) \<or>
           (97 \<le> (of_char c :: nat) \<and> (of_char c :: nat) \<le> 122)"
    and s: "plainText s"
    by (simp_all add: plainText_def)
  from Cons.IH [OF s, of "isCasedUnit (int (of_char c))"] lowerUnit_plain(1,2) [OF c]
  show ?case by (simp add: units_def toLowerCase_def)
qed

lemma toLowerCaseW_plain:
  assumes "plainText s"
  shows "toLowerCaseW (units s) = Some (units (toLowerCase s))"
proof -
  from assms have "list_all isModelledUnit (units s)"
    by (auto simp: list_all_iff units_def plainText_def intro!: lowerUnit_plain(3))
  with lowerUnits_plain [OF assms] show ?thesis by (simp add: toLowerCaseW_def)
qed

lemma prefix_map_inj:
  assumes "inj f"
  shows "prefix (map f ys) (map f xs) = prefix ys xs"
proof
  assume "prefix (map f ys) (map f xs)"
  then obtain zs where "map f xs = map f ys @ zs" by (auto simp: prefix_def)
  then have "\<exists>us vs. xs = us @ vs \<and> map f ys = map f us \<and> zs = map f vs"
    by (rule map_eq_append_conv [THEN iffD1])
  then obtain us vs where "xs = us @ vs" "map f ys = map f us" by auto
  with assms show "prefix ys xs" by (simp add: inj_map_eq_map)
next
  assume "prefix ys xs"
  then show "prefix (map f ys) (map f xs)" by (rule map_mono_prefix)
qed

lemma includesStr_map_inj:
  assumes "inj f"
  shows "includesStr (map f xs) (map f ys) = includesStr xs ys"
proof (induction xs)
  case Nil
  show ?case by simp
next
  case (Cons x xs)
  have "prefix (map f ys) (map f (x # xs)) = prefix ys (x # xs)"
    by (rule prefix_map_inj [OF assms])
  with Cons show ?case by simp
qed

lemma searchMatchesW_plain:
  assumes "plainText q" "plainText t" "plainText a"
  shows "searchMatchesW (units q) (units t) (units a) =
     Some (includesStr (toLowerCase t) (toLowerCase q) \<or> includesStr (toLowerCase a) (toLowerCase q))"
proof -
  have inj: "inj (\<lambda>c :: char. int (of_char c))"
    by (rule injI) (metis char_of_char nat_int)
  have "includesStr (units x) (units y) = includesStr x y" for x y :: string
    unfolding units_def by (rule includesStr_map_inj [OF inj])
  with assms show ?thesis
    by (simp add: searchMatchesW_def toLowerCaseW_plain)
qed

section \<open>Facts about the lookup and the id parameter\<close>

lemma findIndex_Some:
  "findIndex P xs = Some k \<Longrightarrow> k < length xs \<and> P (xs ! k) \<and> (\<forall>j<k. \<not> P (xs ! j))"
proof (induction xs arbitrary: k)
  case Nil
  then show ?case by simp
next
  case (Cons x xs)
  show ?case
  proof (cases "P x")
    case True
    with Cons.prems show ?thesis by simp
  next
    case False
    with Cons.prems obtain k' where k': "findIndex P xs = Some k'" "k = Suc k'"
      by auto
    from Cons.IH [OF k'(1)] False k'(2) show ?thesis
      by (auto simp: nth_Cons split: nat.splits)
  qed
qed

lemma findIndex_None: "findIndex P xs = None \<longleftrightarrow> (\<forall>x\<in>set xs. \<not> P x)"
  by (induction xs) auto

lemma findBookById_Some:
  "findBookById st i = Some (b, index) \<Longrightarrow>
     index < length (books st) \<and> b = books st ! index \<and> bookId b = i"
  by (auto simp: findBookById_def split: option.splits dest: findIndex_Some)

lemma decimalDigit_code:
  "isRadixDigit 10 c \<longleftrightarrow> 48 \<le> (of_char c :: nat) \<and> (of_char c :: nat) \<le> 57"
  by (auto simp: isRadixDigit_def digitValue_def Let_def split: option.splits number.splits if_splits)

lemma decimalDigit_plain:
  assumes "isRadixDigit 10 c"
  shows "\<not> isWhiteSpace c" "c \<noteq> CHR ''-''" "c \<noteq> CHR ''+''"
  using assms
  by (auto simp: decimalDigit_code isWhiteSpace_code of_char_eq_iff' [of c])

lemma bitLength_le:
  "n < 2 ^ k \<Longrightarrow> bitLength n \<le> k"
proof (induction k arbitrary: n)
  case 0
  then show ?case by (simp add: bitLength.simps)
next
  case (Suc k)
  show ?case
  proof (cases "n \<le> 0")
    case True
    then show ?thesis by (simp add: bitLength.simps)
  next
    case False
    from Suc.prems have "n div 2 < 2 ^ k" by simp
    from Suc.IH [OF this] False show ?thesis by (subst bitLength.simps) simp
  qed
qed

lemma takeWhile_run:
  assumes "\<forall>x\<in>set ds. P x" "rest = [] \<or> \<not> P (hd rest)"
  shows "takeWhile P (ds @ rest) = ds"
proof -
  have "takeWhile P rest = []" using assms(2) by (cases rest) auto
  with assms(1) show ?thesis by (simp add: takeWhile_append2)
qed

lemma parseInt_decimal_prefix:
  assumes "ds \<noteq> []" "list_all (isRadixDigit 10) ds"
    "rest = [] \<or> \<not> isRadixDigit 10 (hd rest)"
    "\<not> (ds = ''0'' \<and> rest \<noteq> [] \<and> (hd rest = CHR ''x'' \<or> hd rest = CHR ''X''))"
    "numeralValue 10 ds < 2 ^ 53"
  shows "parseInt (ds @ rest) = Finite (numeralValue 10 ds)"
proof -
  from assms(1) obtain d ds' where ds: "ds = d # ds'" by (cases ds) auto
  with assms(2) have d: "isRadixDigit 10 d" by simp
  have s0: "dropWhile isWhiteSpace (ds @ rest) = ds @ rest"
    using decimalDigit_plain(1) [OF d] by (simp add: ds)
  have z: "takeWhile (isRadixDigit 10) (ds @ rest) = ds"
    using assms(2,3) by (intro takeWhile_run) (auto simp: list_all_iff)
  have nohex: "(take 2 (ds @ rest) = ''0x'' \<or> take 2 (ds @ rest) = ''0X'') = False"
  proof (cases ds')
    case Nil
    with assms(4) ds show ?thesis by (cases rest) auto
  next
    case (Cons d2 ds'')
    with assms(2) ds have "isRadixDigit 10 d2" by simp
    then have "d2 \<noteq> CHR ''x''" "d2 \<noteq> CHR ''X''"
      by (auto simp: decimalDigit_code)
    with Cons ds show ?thesis by simp
  qed
  have minus: "(ds @ rest \<noteq> [] \<and> hd (ds @ rest) = CHR ''-'') = False"
    using decimalDigit_plain(2) [OF d] by (simp add: ds)
  have signed: "(ds @ rest \<noteq> [] \<and> (hd (ds @ rest) = CHR ''+'' \<or> hd (ds @ rest) = CHR ''-'')) = False"
    using decimalDigit_plain(2,3) [OF d] by (simp add: ds)
  show ?thesis
    unfolding parseInt_def s0 Let_def minus signed nohex if_False z
    using assms(1) bitLength_le [OF assms(5)] by (simp add: toNumber_def)
qed

text \<open>
  Beyond \<open>2 ^ 53\<close> the number read is the nearest double, not the numeral's value, and
  a numeral of 310 digits is read as \<^verbatim>\<open>Infinity\<close>, an id that no book has.
\<close>

lemma parseInt_rounds:
  "parseInt ''9007199254740993'' = Finite 9007199254740992"
  "parseInt ''9007199254740995'' = Finite 9007199254740996"
  by code_simp+

lemma parseInt_overflows:
  "parseInt (''1'' @ replicate 309 (CHR ''0'')) = PlusInfinity"
  by code_simp

lemma getBook_overflow:
  "getBook (''1'' @ replicate 309 (CHR ''0'')) st = (Failed 404 (NotFound PlusInfinity), st)"
  unfolding getBook_def parseInt_overflows by simp

section \<open>Facts about the update handler\<close>

lemma put_no_fields_iff:
  "findBookById st i = Some (b, index) \<Longrightarrow>
     fst (putBookWithId now i reqTitle reqAuthor st) = Failed 400 NoFieldsProvided
       \<longleftrightarrow> \<not> truthy reqTitle \<and> \<not> truthy reqAuthor"
  by (auto simp: putBookWithId_def updateTitle_def updateAuthor_def Let_def
      split: sum.splits prod.splits jsval.splits if_splits)

lemma put_error_frame:
  "putBook now p reqTitle reqAuthor st = (Failed c e, st') \<Longrightarrow>
     e \<notin> {AuthorNotString, AuthorEmpty} \<or> reqTitle = JUndefined \<Longrightarrow> st' = st"
  by (auto simp: putBook_def putBookWithId_def updateTitle_def updateAuthor_def Let_def
      split: option.splits number.splits sum.splits prod.splits jsval.splits if_splits)

lemma updateTitle_Inr:
  assumes "updateTitle index reqTitle ([], st) = Inr (fields1, st1)" "index < length (books st)"
  shows "fields1 = (if reqTitle = JUndefined then [] else [''title'']) \<and>
         (reqTitle = JUndefined \<or> (\<exists>s. reqTitle = JStr s \<and> trim s \<noteq> [])) \<and>
         nextId st1 = nextId st \<and>
         books st1 = (books st)[index := (books st ! index)
            \<lparr>title := (case reqTitle of JStr s \<Rightarrow> trim s | _ \<Rightarrow> title (books st ! index))\<rparr>]"
  using assms
  by (cases reqTitle) (auto simp: updateTitle_def setTitle_def split: if_splits)

lemma updateAuthor_Inr:
  assumes "updateAuthor index reqAuthor (fields1, st1) = Inr (fields2, st2)"
    "index < length (books st1)"
  shows "fields2 = fields1 @ (if reqAuthor = JUndefined then [] else [''author'']) \<and>
         (reqAuthor = JUndefined \<or> (\<exists>s. reqAuthor = JStr s \<and> trim s \<noteq> [])) \<and>
         nextId st2 = nextId st1 \<and>
         books st2 = (books st1)[index := (books st1 ! index)
            \<lparr>author := (case reqAuthor of JStr s \<Rightarrow> trim s | _ \<Rightarrow> author (books st1 ! index))\<rparr>]"
  using assms
  by (cases reqAuthor) (auto simp: updateAuthor_def setAuthor_def split: if_splits)

lemma putBookWithId_Updated:
  assumes "putBookWithId now i reqTitle reqAuthor st = (Updated updatedFields b', st')"
  shows "\<exists>b index. findBookById st i = Some (b, index) \<and>
      b' = b\<lparr>title := (case reqTitle of JStr s \<Rightarrow> trim s | _ \<Rightarrow> title b),
             author := (case reqAuthor of JStr s \<Rightarrow> trim s | _ \<Rightarrow> author b),
             updatedAt := now\<rparr> \<and>
      books st' = (books st)[index := b'] \<and> nextId st' = nextId st \<and>
      updatedFields = (if reqTitle = JUndefined then [] else [''title'']) @
               (if reqAuthor = JUndefined then [] else [''author'']) \<and>
      (reqTitle = JUndefined \<or> (\<exists>s. reqTitle = JStr s \<and> trim s \<noteq> [])) \<and>
      (reqAuthor = JUndefined \<or> (\<exists>s. reqAuthor = JStr s \<and> trim s \<noteq> []))"
proof -
  from assms obtain b index where f: "findBookById st i = Some (b, index)"
    by (auto simp: putBookWithId_def split: option.splits)
  then have idx: "index < length (books st)" and b: "b = books st ! index"
    using findBookById_Some by blast+
  from assms f obtain fields1 st1 where
    t: "updateTitle index reqTitle ([], st) = Inr (fields1, st1)"
    by (auto simp: putBookWithId_def split: if_splits sum.splits)
  note T = updateTitle_Inr [OF t idx]
  with idx have idx1: "index < length (books st1)" by simp
  from assms f t obtain st2 where
    a: "updateAuthor index reqAuthor (fields1, st1) = Inr (updatedFields, st2)"
    and r: "st' = setUpdatedAt index now st2" "b' = books (setUpdatedAt index now st2) ! index"
    by (auto simp: putBookWithId_def Let_def split: if_splits sum.splits)
  note A = updateAuthor_Inr [OF a idx1]
  from T have Tb: "books st1 = (books st)[index := b
      \<lparr>title := (case reqTitle of JStr s \<Rightarrow> trim s | _ \<Rightarrow> title b)\<rparr>]"
    unfolding b by blast
  have s1: "books st1 ! index = b\<lparr>title := (case reqTitle of JStr s \<Rightarrow> trim s | _ \<Rightarrow> title b)\<rparr>"
    unfolding Tb using idx by simp
  from A have Ab: "books st2 = (books st1)[index := (books st1 ! index)
      \<lparr>author := (case reqAuthor of JStr s \<Rightarrow> trim s | _ \<Rightarrow> author (books st1 ! index))\<rparr>]"
    by blast
  have 1: "books st2 ! index = b\<lparr>title := (case reqTitle of JStr s \<Rightarrow> trim s | _ \<Rightarrow> title b),
             author := (case reqAuthor of JStr s \<Rightarrow> trim s | _ \<Rightarrow> author b)\<rparr>"
    unfolding Ab using idx1 by (simp add: s1 cong: jsval.case_cong)
  have 2: "length (books st2) = length (books st)" unfolding Ab Tb by simp
  have 3: "b' = (books st2 ! index)\<lparr>updatedAt := now\<rparr>"
    using r(2) idx 2 by (simp add: setUpdatedAt_def)
  have 4: "books st' = (books st)[index := b']"
    unfolding r(1) 3 setUpdatedAt_def by (simp add: Ab Tb)
  have 5: "nextId st' = nextId st" using r(1) T A by (simp add: setUpdatedAt_def)
  from f 1 3 4 5 T A show ?thesis by simp
qed

section \<open>Facts about the store and its invariant\<close>

lemma map_bookId_update:
  assumes "bookId b' = bookId (xs ! index)"
  shows "map bookId (xs[index := b']) = map bookId xs"
proof (cases "index < length xs")
  case True
  then show ?thesis using assms by (simp add: map_update list_update_same_conv)
next
  case False
  then show ?thesis by (simp add: list_update_beyond)
qed

lemma setTitle_frame [simp]:
  "map bookId (books (setTitle index v st)) = map bookId (books st)"
  "nextId (setTitle index v st) = nextId st"
  by (simp_all add: setTitle_def map_bookId_update)

lemma setAuthor_frame [simp]:
  "map bookId (books (setAuthor index v st)) = map bookId (books st)"
  "nextId (setAuthor index v st) = nextId st"
  by (simp_all add: setAuthor_def map_bookId_update)

lemma setUpdatedAt_frame [simp]:
  "map bookId (books (setUpdatedAt index v st)) = map bookId (books st)"
  "nextId (setUpdatedAt index v st) = nextId st"
  by (simp_all add: setUpdatedAt_def map_bookId_update)

lemma putBook_frame:
  assumes "putBook now p reqTitle reqAuthor st = (resp, st')"
  shows "map bookId (books st') = map bookId (books st) \<and> nextId st' = nextId st"
  using assms
  by (auto simp: putBook_def putBookWithId_def updateTitle_def updateAuthor_def Let_def
      split: option.splits number.splits sum.splits prod.splits jsval.splits if_splits)

lemma storeInv_ids:
  "storeInv st \<longleftrightarrow> 0 < nextId st \<and> (\<forall>i\<in>set (map bookId (books st)). 0 < i \<and> i < nextId st) \<and>
     distinct (map bookId (books st))"
  by (auto simp: storeInv_def list_all_iff)

lemma splice1_ids:
  "set (map bookId (splice1 index xs)) \<subseteq> set (map bookId xs)"
  "distinct (map bookId xs) \<Longrightarrow> distinct (map bookId (splice1 index xs))"
proof -
  show "set (map bookId (splice1 index xs)) \<subseteq> set (map bookId xs)"
    unfolding splice1_def by (auto dest: in_set_takeD in_set_dropD)
  assume d: "distinct (map bookId xs)"
  have "map bookId xs = map bookId (take index xs) @ map bookId (drop index xs)"
    by (metis append_take_drop_id map_append)
  moreover have "drop index xs = take 1 (drop index xs) @ drop (Suc index) xs"
    by (metis append_take_drop_id drop_drop plus_1_eq_Suc)
  ultimately have "map bookId xs = map bookId (take index xs) @
      map bookId (take 1 (drop index xs)) @ map bookId (drop (Suc index) xs)"
    by (metis map_append)
  with d have "distinct (map bookId (take index xs) @
      map bookId (take 1 (drop index xs)) @ map bookId (drop (Suc index) xs))"
    by simp
  then show "distinct (map bookId (splice1 index xs))"
    unfolding splice1_def by auto
qed

lemma handle_storeInv:
  assumes "storeInv st" "handle r st = (resp, st')"
  shows "storeInv st'"
proof (cases r)
  case GetBooks
  with assms show ?thesis by (auto simp: getBooks_def)
next
  case (GetBook p)
  with assms show ?thesis
    by (auto simp: getBook_def getBookWithId_def split: option.splits number.splits if_splits)
next
  case (PostBook n1 n2 t a)
  with assms have "st' = st \<or>
      (\<exists>b. bookId b = nextId st \<and> st' = \<lparr>books = books st @ [b], nextId = nextId st + 1\<rparr>)"
    by (auto simp: postBook_def Let_def split: jsval.splits if_splits)
  then show ?thesis
  proof
    assume "st' = st"
    with assms show ?thesis by simp
  next
    assume "\<exists>b. bookId b = nextId st \<and> st' = \<lparr>books = books st @ [b], nextId = nextId st + 1\<rparr>"
    then obtain b where b: "bookId b = nextId st"
      "st' = \<lparr>books = books st @ [b], nextId = nextId st + 1\<rparr>" by blast
    from assms(1) have "\<forall>i\<in>set (map bookId (books st)). i \<noteq> nextId st \<and> i < nextId st + 1"
      unfolding storeInv_ids by fastforce
    with assms(1) b show ?thesis unfolding storeInv_ids by auto
  qed
next
  case (PutBook n p t a)
  with assms have "putBook n p t a st = (resp, st')" by simp
  from putBook_frame [OF this] assms(1) show ?thesis by (simp add: storeInv_ids)
next
  case (DeleteBook p)
  with assms have "st' = st \<or> (\<exists>index. st' = st\<lparr>books := splice1 index (books st)\<rparr>)"
    by (auto simp: deleteBook_def deleteBookWithId_def split: option.splits number.splits if_splits)
  then show ?thesis
  proof
    assume "st' = st"
    with assms show ?thesis by simp
  next
    assume "\<exists>index. st' = st\<lparr>books := splice1 index (books st)\<rparr>"
    then obtain index where "st' = st\<lparr>books := splice1 index (books st)\<rparr>" ..
    with assms(1) splice1_ids [where index = index and xs = "books st"] show ?thesis
      unfolding storeInv_ids by auto
  qed
next
  case DeleteBooks
  with assms show ?thesis by (auto simp: deleteBooks_def Let_def storeInv_def)
next
  case (SearchBooks q)
  with assms show ?thesis by (auto simp: searchBooks_def Let_def split: if_splits)
qed

lemma run_storeInv:
  "storeInv st \<Longrightarrow> storeInv (snd (run st reqs))"
proof (induction reqs arbitrary: st)
  case Nil
  then show ?case by simp
next
  case (Cons r reqs)
  obtain resp st' where h: "handle r st = (resp, st')" by (cases "handle r st")
  from handle_storeInv [OF Cons.prems h] have "storeInv (snd (run st' reqs))"
    by (rule Cons.IH)
  with h show ?case by (auto split: prod.splits)
qed

lemma storeInv_initial: "storeInv initial"
  by (simp add: storeInv_def initial_def)

lemma splice1_filter:
  assumes "distinct (map f xs)" "index < length xs"
  shows "splice1 index xs = filter (\<lambda>x. f x \<noteq> f (xs ! index)) xs"
proof -
  let ?a = "take index xs" and ?b = "drop (Suc index) xs" and ?x = "xs ! index"
  have xs: "xs = ?a @ ?x # ?b" by (rule id_take_nth_drop [OF assms(2)])
  have "map f xs = map f (?a @ ?x # ?b)" by (rule arg_cong [OF xs])
  with assms(1) have "distinct (map f (?a @ ?x # ?b))" by simp
  then have "f ?x \<notin> f ` set ?a" "f ?x \<notin> f ` set ?b" by auto
  then have ne: "\<forall>y\<in>set ?a. f y \<noteq> f ?x" "\<forall>y\<in>set ?b. f y \<noteq> f ?x"
    by (metis imageI)+
  have "filter (\<lambda>x. f x \<noteq> f ?x) xs = filter (\<lambda>x. f x \<noteq> f ?x) (?a @ ?x # ?b)"
    by (rule arg_cong [OF xs])
  also have "\<dots> = ?a @ ?b" using ne by (simp add: filter_id_conv)
  finally show ?thesis unfolding splice1_def by simp
qed

section \<open>Facts about sequences of requests\<close>

lemma issuedIds_Cons: "issuedIds (resp # resps) = issuedIds [resp] @ issuedIds resps"
  by (cases resp) simp_all

lemma run_Cons:
  "run st (r # rs) = (fst (handle r st) # fst (run (snd (handle r st)) rs),
                      snd (run (snd (handle r st)) rs))"
  by (simp split: prod.splits)

lemma run_append:
  "run st (xs @ ys) = (fst (run st xs) @ fst (run (snd (run st xs)) ys),
                       snd (run (snd (run st xs)) ys))"
proof (induction xs arbitrary: st)
  case Nil
  then show ?case by simp
next
  case (Cons r xs)
  show ?case unfolding append_Cons run_Cons [of st] Cons.IH by simp
qed

lemma handle_issue:
  assumes "r \<noteq> DeleteBooks"
  shows "(issuedIds [fst (handle r st)] = [] \<and> nextId (snd (handle r st)) = nextId st) \<or>
         (issuedIds [fst (handle r st)] = [nextId st] \<and>
          nextId (snd (handle r st)) = nextId st + 1)"
proof (cases r)
  case GetBooks
  then show ?thesis by (simp add: getBooks_def)
next
  case (GetBook p)
  then show ?thesis
    by (auto simp: getBook_def getBookWithId_def split: option.splits number.splits)
next
  case (PostBook n1 n2 t a)
  then show ?thesis
    by (auto simp: postBook_def Let_def split: jsval.splits)
next
  case (PutBook n p t a)
  obtain resp st' where h: "putBook n p t a st = (resp, st')" by (cases "putBook n p t a st")
  from putBook_frame [OF h] have n: "nextId st' = nextId st" by simp
  from h have "issuedIds [resp] = []"
    by (auto simp: putBook_def putBookWithId_def Let_def
        split: option.splits number.splits if_splits sum.splits prod.splits)
  with h n PutBook show ?thesis by simp
next
  case (DeleteBook p)
  then show ?thesis
    by (auto simp: deleteBook_def deleteBookWithId_def split: option.splits number.splits)
next
  case DeleteBooks
  with assms show ?thesis by simp
next
  case (SearchBooks q)
  then show ?thesis by (auto simp: searchBooks_def Let_def)
qed

lemma run_issue:
  assumes "DeleteBooks \<notin> set reqs"
  shows "nextId st \<le> nextId (snd (run st reqs)) \<and>
         (\<forall>i\<in>set (issuedIds (fst (run st reqs))). nextId st \<le> i \<and> i < nextId (snd (run st reqs))) \<and>
         sorted_wrt (<) (issuedIds (fst (run st reqs)))"
  using assms
proof (induction reqs arbitrary: st)
  case Nil
  then show ?case by simp
next
  case (Cons r reqs)
  let ?st' = "snd (handle r st)"
  from Cons.prems have r: "r \<noteq> DeleteBooks" and rest: "DeleteBooks \<notin> set reqs" by auto
  note IH = Cons.IH [OF rest, of ?st']
  have ids: "issuedIds (fst (run st (r # reqs))) =
      issuedIds [fst (handle r st)] @ issuedIds (fst (run ?st' reqs))"
    unfolding run_Cons fst_conv by (rule issuedIds_Cons)
  have fin: "snd (run st (r # reqs)) = snd (run ?st' reqs)"
    unfolding run_Cons by simp
  from handle_issue [OF r, of st] show ?case
  proof
    assume "issuedIds [fst (handle r st)] = [] \<and> nextId ?st' = nextId st"
    with IH show ?thesis unfolding ids fin by simp
  next
    assume "issuedIds [fst (handle r st)] = [nextId st] \<and> nextId ?st' = nextId st + 1"
    with IH show ?thesis unfolding ids fin by fastforce
  qed
qed

lemma validPost_handle:
  assumes "validPost r"
  shows "\<exists>b bs. handle r st = (Created b, \<lparr>books = bs, nextId = nextId st + 1\<rparr>) \<and> bookId b = nextId st"
proof -
  from assms obtain n1 n2 t a where r: "r = PostBook n1 n2 t a"
    and v: "isValid (validateBookData t a)"
    by (cases r) auto
  have c: "validateBookData t a = (if t = JUndefined \<or> a = JUndefined
      then \<lparr>isValid = False, errors = [''Title and author are required fields'']\<rparr>
      else \<lparr>isValid = (applicableErrors t a = []), errors = applicableErrors t a\<rparr>)"
    unfolding validateBookData_def applicableErrors_def pushIf_def Let_def
    using isBlankString_isString [of t] isBlankString_isString [of a]
    by (auto simp: trimsToEmpty_iff)
  from v have "isString t" "isString a"
    unfolding c by (auto simp: applicableErrors_def split: if_splits)
  then obtain s1 s2 where "t = JStr s1" "a = JStr s2"
    by (cases t; cases a) auto
  with v r show ?thesis by (simp add: postBook_def Let_def)
qed

lemma inserts_ids:
  assumes "\<forall>r\<in>set reqs. validPost r"
  shows "issuedIds (fst (run st reqs)) = map (\<lambda>k. nextId st + int k) [0..<length reqs]"
  using assms
proof (induction reqs arbitrary: st)
  case Nil
  then show ?case by simp
next
  case (Cons r reqs)
  from Cons.prems have "validPost r" by simp
  from validPost_handle [OF this, of st] obtain b bs where
    h: "handle r st = (Created b, \<lparr>books = bs, nextId = nextId st + 1\<rparr>)" "bookId b = nextId st"
    by blast
  from Cons.prems have "\<forall>r\<in>set reqs. validPost r" by simp
  note IH = Cons.IH [OF this, of "\<lparr>books = bs, nextId = nextId st + 1\<rparr>"]
  have "map (\<lambda>k. nextId st + int k) [0..<length (r # reqs)] =
      nextId st # map (\<lambda>k. nextId st + 1 + int k) [0..<length reqs]"
    by (simp add: map_upt_Suc del: upt_Suc)
  with h IH show ?case unfolding run_Cons by simp
qed

section \<open>Create-validation\<close>

text \<open>
  C7. For all title and author given to create-validation: if either is absent the result
  is invalid with exactly the one error "Title and author are required fields" and no
  per-field error; otherwise the result holds, in the fixed order "Title must be a
  string", "Author must be a string", "Title cannot be empty", "Author cannot be empty",
  every applicable error, and it is valid exactly when that list is empty.
\<close>

theorem validateBookData_collects:
  "validateBookData reqTitle reqAuthor =
     (if reqTitle = JUndefined \<or> reqAuthor = JUndefined
      then \<lparr>isValid = False, errors = [''Title and author are required fields'']\<rparr>
      else \<lparr>isValid = (applicableErrors reqTitle reqAuthor = []),
            errors = applicableErrors reqTitle reqAuthor\<rparr>)"
proof (cases "reqTitle = JUndefined \<or> reqAuthor = JUndefined")
  case True
  then show ?thesis by (simp add: validateBookData_def)
next
  case False
  have t: "(isString reqTitle \<and> trimsToEmpty reqTitle) = isBlankString reqTitle"
    using isBlankString_isString [of reqTitle] by (auto simp: trimsToEmpty_iff)
  have a: "(isString reqAuthor \<and> trimsToEmpty reqAuthor) = isBlankString reqAuthor"
    using isBlankString_isString [of reqAuthor] by (auto simp: trimsToEmpty_iff)
  from False show ?thesis
    unfolding validateBookData_def applicableErrors_def pushIf_def Let_def t a
    by simp
qed

theorem validateBookData_collects_witness:
  "validateBookData (JStr ''  '') (JNum 7) =
     \<lparr>isValid = False, errors = [''Author must be a string'', ''Title cannot be empty'']\<rparr>
   \<and> validateBookData JUndefined (JNum 7) =
     \<lparr>isValid = False, errors = [''Title and author are required fields'']\<rparr>
   \<and> validateBookData (JStr ''Dune'') (JStr ''Frank Herbert'') = \<lparr>isValid = True, errors = []\<rparr>"
  using validateBookData_collects [of "JStr ''  ''" "JNum 7"]
    validateBookData_collects [of JUndefined "JNum 7"]
    validateBookData_collects [of "JStr ''Dune''" "JStr ''Frank Herbert''"]
  by (simp add: applicableErrors_def isWhiteSpace_def)

section \<open>Search\<close>





section \<open>The id parameter\<close>

text \<open>
  C3, as the code has it. For every path parameter given to get-one, update and
  delete-one: when \<^verbatim>\<open>parseInt\<close> finds no numeral in it (its result is \<^verbatim>\<open>NaN\<close>) the
  operation fails with the invalid-format error (400); when the number read is zero or
  negative it fails with the not-positive error (400); otherwise the operation goes on
  with the number read, a positive integer, or \<^verbatim>\<open>Infinity\<close> for a numeral too large for
  a double, which is the id of no book (404). Only the leading numeral is read: a
  parameter that starts with decimal digits (but not with the prefix \<^verbatim>\<open>0x\<close> or \<^verbatim>\<open>0X\<close>)
  of a value below \<open>2 ^ 53\<close> and goes on with something that is no decimal digit is
  read at the value of those digits, so it is accepted with that value when it is
  positive, and is not rejected as invalid format.
\<close>

theorem id_check:
  "(parseInt p = NaN \<longrightarrow>
      getBook p st = (Failed 400 InvalidFormat, st) \<and>
      putBook now p reqTitle reqAuthor st = (Failed 400 InvalidFormat, st) \<and>
      deleteBook p st = (Failed 400 InvalidFormat, st)) \<and>
   (parseInt p = MinusInfinity \<or> (\<exists>i. parseInt p = Finite i \<and> i \<le> 0) \<longrightarrow>
      getBook p st = (Failed 400 NotPositive, st) \<and>
      putBook now p reqTitle reqAuthor st = (Failed 400 NotPositive, st) \<and>
      deleteBook p st = (Failed 400 NotPositive, st)) \<and>
   (\<forall>i. parseInt p = Finite i \<and> 0 < i \<longrightarrow>
      getBook p st = getBookWithId i st \<and>
      putBook now p reqTitle reqAuthor st = putBookWithId now i reqTitle reqAuthor st \<and>
      deleteBook p st = deleteBookWithId i st) \<and>
   (parseInt p = PlusInfinity \<longrightarrow>
      getBook p st = (Failed 404 (NotFound PlusInfinity), st) \<and>
      putBook now p reqTitle reqAuthor st = (Failed 404 (NotFound PlusInfinity), st) \<and>
      deleteBook p st = (Failed 404 (NotFound PlusInfinity), st)) \<and>
   (ds \<noteq> [] \<and> list_all (isRadixDigit 10) ds \<and>
    (rest = [] \<or> \<not> isRadixDigit 10 (hd rest)) \<and>
    \<not> (ds = ''0'' \<and> rest \<noteq> [] \<and> (hd rest = CHR ''x'' \<or> hd rest = CHR ''X'')) \<and>
    numeralValue 10 ds < 2 ^ 53 \<longrightarrow>
      parseInt (ds @ rest) = Finite (numeralValue 10 ds) \<and>
      (0 < numeralValue 10 ds \<longrightarrow>
         getBook (ds @ rest) st = getBookWithId (numeralValue 10 ds) st \<and>
         putBook now (ds @ rest) reqTitle reqAuthor st =
           putBookWithId now (numeralValue 10 ds) reqTitle reqAuthor st \<and>
         deleteBook (ds @ rest) st = deleteBookWithId (numeralValue 10 ds) st))"
proof -
  have split: "parseInt p = NaN \<longrightarrow>
      getBook p st = (Failed 400 InvalidFormat, st) \<and>
      putBook now p reqTitle reqAuthor st = (Failed 400 InvalidFormat, st) \<and>
      deleteBook p st = (Failed 400 InvalidFormat, st)"
    "parseInt p = MinusInfinity \<or> (\<exists>i. parseInt p = Finite i \<and> i \<le> 0) \<longrightarrow>
      getBook p st = (Failed 400 NotPositive, st) \<and>
      putBook now p reqTitle reqAuthor st = (Failed 400 NotPositive, st) \<and>
      deleteBook p st = (Failed 400 NotPositive, st)"
    "parseInt p = PlusInfinity \<longrightarrow>
      getBook p st = (Failed 404 (NotFound PlusInfinity), st) \<and>
      putBook now p reqTitle reqAuthor st = (Failed 404 (NotFound PlusInfinity), st) \<and>
      deleteBook p st = (Failed 404 (NotFound PlusInfinity), st)"
    by (auto simp: getBook_def putBook_def deleteBook_def)
  have pos: "parseInt q = Finite i \<and> 0 < i \<longrightarrow>
      getBook q st = getBookWithId i st \<and>
      putBook now q reqTitle reqAuthor st = putBookWithId now i reqTitle reqAuthor st \<and>
      deleteBook q st = deleteBookWithId i st" for q i
    by (simp add: getBook_def putBook_def deleteBook_def)
  have prefix: "parseInt (ds @ rest) = Finite (numeralValue 10 ds)"
    if "ds \<noteq> [] \<and> list_all (isRadixDigit 10) ds \<and>
        (rest = [] \<or> \<not> isRadixDigit 10 (hd rest)) \<and>
        \<not> (ds = ''0'' \<and> rest \<noteq> [] \<and> (hd rest = CHR ''x'' \<or> hd rest = CHR ''X'')) \<and>
        numeralValue 10 ds < 2 ^ 53"
    using that by (intro parseInt_decimal_prefix) blast+
  from split pos [of p] pos [of "ds @ rest" "numeralValue 10 ds"] prefix
  show ?thesis by blast
qed

theorem id_check_witness:
  "parseInt ''abc'' = NaN \<and> getBook ''abc'' shelf = (Failed 400 InvalidFormat, shelf) \<and>
   parseInt ''-3'' = Finite (- 3) \<and> deleteBook ''-3'' shelf = (Failed 400 NotPositive, shelf) \<and>
   parseInt ''2'' = Finite 2 \<and> getBook ''2'' shelf = getBookWithId 2 shelf \<and>
   numeralValue 10 ''1'' = 1 \<and> parseInt (''1'' @ ''abc'') = Finite 1 \<and>
   getBook (''1'' @ ''abc'') shelf = getBookWithId 1 shelf"
proof -
  have 1: "parseInt ''abc'' = NaN" by code_simp
  have 2: "parseInt ''-3'' = Finite (- 3)" by code_simp
  have 3: "parseInt ''2'' = Finite 2" by code_simp
  have 4: "''1'' \<noteq> [] \<and> list_all (isRadixDigit 10) ''1'' \<and>
    (''abc'' = [] \<or> \<not> isRadixDigit 10 (hd ''abc'')) \<and>
    \<not> (''1'' = ''0'' \<and> ''abc'' \<noteq> [] \<and> (hd ''abc'' = CHR ''x'' \<or> hd ''abc'' = CHR ''X'')) \<and>
    numeralValue 10 ''1'' < 2 ^ 53" by code_simp
  have 5: "numeralValue 10 ''1'' = 1" by code_simp
  show ?thesis
    using id_check [of "''abc''" shelf "''T''" JUndefined JUndefined "''1''" "''abc''"]
      id_check [of "''-3''" shelf "''T''" JUndefined JUndefined "''1''" "''abc''"]
      id_check [of "''2''" shelf "''T''" JUndefined JUndefined "''1''" "''abc''"]
      1 2 3 4
    unfolding 5 by simp
qed

text \<open>
  C3 as it was stated also says that a parameter which is not numeric throughout is
  rejected as invalid format. The three handlers accept \<^verbatim>\<open>1abc\<close> as the id 1.
\<close>

theorem id_with_trailing_text_accepted:
  "getBook ''1abc'' shelf = (OneBook gatsby, shelf) \<and>
   deleteBook ''1abc'' shelf =
     (Deleted 1 ''The Great Gatsby'' ''F. Scott Fitzgerald'', \<lparr>books = [hobbit], nextId = 3\<rparr>) \<and>
   fst (putBook ''2024-03-01T00:00:00.000Z'' ''1abc'' (JStr ''Gatsby'') JUndefined shelf) =
     Updated [''title''] (gatsby\<lparr>title := ''Gatsby'', updatedAt := ''2024-03-01T00:00:00.000Z''\<rparr>)"
  by code_simp

section \<open>Update\<close>

text \<open>
  C1 says that an update which returns an error leaves the collection unchanged, also
  when the title is valid and the author is not. The handler writes the title before
  it looks at the author: for the request below the response is the author error, and
  the stored title is the new one.
\<close>

theorem put_invalid_author_keeps_new_title:
  "putBook ''2024-03-01T00:00:00.000Z'' ''1'' (JStr ''Tender Is the Night'') (JStr '' '') shelf =
     (Failed 400 AuthorEmpty,
      \<lparr>books = [gatsby\<lparr>title := ''Tender Is the Night''\<rparr>, hobbit], nextId = 3\<rparr>)"
  by code_simp

text \<open>
  C2 says that the no-fields error is returned exactly when both fields are absent, and
  that a field present as the empty string is judged by the per-field checks. The guard
  tests truthiness: an empty title with no author gets the no-fields error, not
  "Title cannot be empty."
\<close>

theorem put_empty_title_is_no_fields:
  "putBook ''2024-03-01T00:00:00.000Z'' ''1'' (JStr '''') JUndefined shelf =
     (Failed 400 NoFieldsProvided, shelf)"
  by code_simp

text \<open>
  C8, as the code has it. A successful update-by-id writes the trimmed value of each
  field present in the request and leaves an absent field as it was, sets the record's
  \<^verbatim>\<open>updatedAt\<close> to now, touches no other record and not the counter, and returns the
  updated book with the names of the fields present in the request, title before
  author, whether or not the stored value has changed.
\<close>

theorem put_success:
  assumes "putBook now p reqTitle reqAuthor st = (Updated updatedFields b', st')"
  shows "\<exists>i b index. parseInt p = Finite i \<and> 0 < i \<and> findBookById st i = Some (b, index) \<and>
      b' = b\<lparr>title := (case reqTitle of JStr s \<Rightarrow> trim s | _ \<Rightarrow> title b),
             author := (case reqAuthor of JStr s \<Rightarrow> trim s | _ \<Rightarrow> author b),
             updatedAt := now\<rparr> \<and>
      books st' = (books st)[index := b'] \<and> nextId st' = nextId st \<and>
      updatedFields = (if reqTitle = JUndefined then [] else [''title'']) @
               (if reqAuthor = JUndefined then [] else [''author'']) \<and>
      (reqTitle = JUndefined \<or> (\<exists>s. reqTitle = JStr s \<and> trim s \<noteq> [])) \<and>
      (reqAuthor = JUndefined \<or> (\<exists>s. reqAuthor = JStr s \<and> trim s \<noteq> []))"
proof -
  from assms obtain i where i: "parseInt p = Finite i" "0 < i"
    and w: "putBookWithId now i reqTitle reqAuthor st = (Updated updatedFields b', st')"
    by (auto simp: putBook_def split: option.splits number.splits if_splits)
  from putBookWithId_Updated [OF w] i show ?thesis by blast
qed

theorem put_success_witness:
  "putBook ''2024-03-01T00:00:00.000Z'' ''2'' JUndefined (JStr '' Tolkien '') shelf =
     (Updated [''author''] (hobbit\<lparr>author := ''Tolkien'', updatedAt := ''2024-03-01T00:00:00.000Z''\<rparr>),
      \<lparr>books = [gatsby, hobbit\<lparr>author := ''Tolkien'', updatedAt := ''2024-03-01T00:00:00.000Z''\<rparr>],
       nextId = 3\<rparr>)
   \<and> (\<exists>i b index. parseInt ''2'' = Finite i \<and> 0 < i \<and> findBookById shelf i = Some (b, index) \<and>
        hobbit\<lparr>author := ''Tolkien'', updatedAt := ''2024-03-01T00:00:00.000Z''\<rparr> =
          b\<lparr>title := title b, author := ''Tolkien'', updatedAt := ''2024-03-01T00:00:00.000Z''\<rparr>)"
proof -
  have 1: "putBook ''2024-03-01T00:00:00.000Z'' ''2'' JUndefined (JStr '' Tolkien '') shelf =
     (Updated [''author''] (hobbit\<lparr>author := ''Tolkien'', updatedAt := ''2024-03-01T00:00:00.000Z''\<rparr>),
      \<lparr>books = [gatsby, hobbit\<lparr>author := ''Tolkien'', updatedAt := ''2024-03-01T00:00:00.000Z''\<rparr>],
       nextId = 3\<rparr>)"
    by code_simp
  have 2: "trim '' Tolkien '' = ''Tolkien''" by code_simp
  from put_success [OF 1] 1 2 show ?thesis by auto
qed

text \<open>
  C8 as it was stated says that a field is listed only if its stored value has changed.
  Writing the title a record already has lists "title".
\<close>

theorem put_lists_unchanged_field:
  "putBook ''2024-03-01T00:00:00.000Z'' ''1'' (JStr ''The Great Gatsby'') JUndefined shelf =
     (Updated [''title''] (gatsby\<lparr>updatedAt := ''2024-03-01T00:00:00.000Z''\<rparr>),
      \<lparr>books = [gatsby\<lparr>updatedAt := ''2024-03-01T00:00:00.000Z''\<rparr>, hobbit], nextId = 3\<rparr>)
   \<and> title (gatsby\<lparr>updatedAt := ''2024-03-01T00:00:00.000Z''\<rparr>) = title (books shelf ! 0)"
  by code_simp

section \<open>Responses that carry a collection\<close>

text \<open>
  C10. In every response that carries a collection (list-all, delete-all and search are
  the ones that do) the count is the number of books in the data.
\<close>

theorem count_is_length:
  assumes "dataOf (fst (handle r st)) = Some bs"
  shows "countOf (fst (handle r st)) = Some (length bs)"
proof (cases r)
  case GetBooks
  with assms show ?thesis by (auto simp: getBooks_def)
next
  case (GetBook p)
  with assms show ?thesis
    by (auto simp: getBook_def getBookWithId_def split: option.splits number.splits if_splits)
next
  case (PostBook n1 n2 t a)
  with assms show ?thesis
    by (auto simp: postBook_def Let_def split: jsval.splits if_splits)
next
  case (PutBook n p t a)
  with assms show ?thesis
    by (auto simp: putBook_def putBookWithId_def Let_def
        split: option.splits number.splits if_splits sum.splits prod.splits)
next
  case (DeleteBook p)
  with assms show ?thesis
    by (auto simp: deleteBook_def deleteBookWithId_def split: option.splits number.splits if_splits)
next
  case DeleteBooks
  with assms show ?thesis by (auto simp: deleteBooks_def Let_def)
next
  case (SearchBooks q)
  with assms show ?thesis by (auto simp: searchBooks_def Let_def split: if_splits)
qed

theorem count_is_length_witness:
  "dataOf (fst (handle GetBooks shelf)) = Some [gatsby, hobbit]
   \<and> countOf (fst (handle GetBooks shelf)) = Some 2
   \<and> dataOf (fst (handle DeleteBooks shelf)) = Some [gatsby, hobbit]
   \<and> countOf (fst (handle DeleteBooks shelf)) = Some 2
   \<and> dataOf (fst (handle (SearchBooks ''hobbit'') shelf)) = Some [hobbit]
   \<and> countOf (fst (handle (SearchBooks ''hobbit'') shelf)) = Some 1"
proof -
  have 1: "dataOf (fst (handle GetBooks shelf)) = Some [gatsby, hobbit]" by code_simp
  have 2: "dataOf (fst (handle DeleteBooks shelf)) = Some [gatsby, hobbit]" by code_simp
  have 3: "dataOf (fst (handle (SearchBooks ''hobbit'') shelf)) = Some [hobbit]" by code_simp
  show ?thesis
    using count_is_length [OF 1] count_is_length [OF 2] count_is_length [OF 3] 1 2 3 by simp
qed

section \<open>The id counter\<close>

text \<open>
  C4, as the code has it. In every state the server reaches, the counter is above the
  id of every stored book. Over any stretch of requests without a delete-all, every id
  handed out in the stretch is at least the counter at its start (so it is the id of no
  book stored then) and below the counter at its end, and no id is handed out twice,
  deletions by id included. A delete-all sets the counter back to 1.
\<close>

theorem counter_above_ids:
  assumes "DeleteBooks \<notin> set reqs2"
  shows "(\<forall>i\<in>set (issuedIds (fst (run (snd (run initial reqs1)) reqs2))).
            nextId (snd (run initial reqs1)) \<le> i \<and>
            i < nextId (snd (run initial (reqs1 @ reqs2)))) \<and>
         distinct (issuedIds (fst (run (snd (run initial reqs1)) reqs2))) \<and>
         (\<forall>b\<in>set (books (snd (run initial reqs1))). bookId b < nextId (snd (run initial reqs1))) \<and>
         (\<forall>b\<in>set (books (snd (run initial (reqs1 @ reqs2)))).
            bookId b < nextId (snd (run initial (reqs1 @ reqs2)))) \<and>
         nextId (snd (run initial (reqs1 @ reqs2 @ [DeleteBooks]))) = 1"
proof -
  let ?st1 = "snd (run initial reqs1)"
  have fin: "snd (run initial (reqs1 @ reqs2)) = snd (run ?st1 reqs2)"
    by (simp add: run_append)
  note I = run_issue [OF assms, of ?st1]
  from I have "distinct (issuedIds (fst (run ?st1 reqs2)))"
    by (simp add: strict_sorted_iff)
  moreover have "storeInv ?st1" "storeInv (snd (run initial (reqs1 @ reqs2)))"
    by (rule run_storeInv [OF storeInv_initial])+
  moreover have "nextId (snd (run initial (reqs1 @ reqs2 @ [DeleteBooks]))) = 1"
    unfolding append_assoc [symmetric] run_append [of initial "reqs1 @ reqs2"]
    by (simp add: deleteBooks_def split: prod.splits)
  ultimately show ?thesis using I unfolding fin by (auto simp: storeInv_def list_all_iff)
qed

theorem counter_above_ids_witness:
  "DeleteBooks \<notin> set [emma, DeleteBook ''1'', dune] \<and>
   issuedIds (fst (run (snd (run initial [dune, DeleteBooks, dune])) [emma, DeleteBook ''1'', dune])) = [2, 3] \<and>
   nextId (snd (run initial ([dune, DeleteBooks, dune] @ [emma, DeleteBook ''1'', dune]))) = 4 \<and>
   distinct (issuedIds (fst (run (snd (run initial [dune, DeleteBooks, dune])) [emma, DeleteBook ''1'', dune]))) \<and>
   nextId (snd (run initial ([dune, DeleteBooks, dune] @ [emma, DeleteBook ''1'', dune] @ [DeleteBooks]))) = 1"
proof -
  have 1: "DeleteBooks \<notin> set [emma, DeleteBook ''1'', dune]" by (simp add: emma_def dune_def)
  have 2: "issuedIds (fst (run (snd (run initial [dune, DeleteBooks, dune])) [emma, DeleteBook ''1'', dune])) = [2, 3]"
    by code_simp
  have 3: "nextId (snd (run initial ([dune, DeleteBooks, dune] @ [emma, DeleteBook ''1'', dune]))) = 4"
    by code_simp
  from counter_above_ids [OF 1, of "[dune, DeleteBooks, dune]"] 1 2 3 show ?thesis by simp
qed

text \<open>
  C4 as it was stated puts the counter above every id handed out since the process
  started, with no id ever used again. After one insert and a delete-all the counter is
  1, the id already handed out, and the next insert gets the id 1 a second time.
\<close>

theorem delete_all_resets_counter:
  "issuedIds (fst (run initial [dune, DeleteBooks, emma])) = [1, 1] \<and>
   issuedIds (fst (run initial [dune, DeleteBooks])) = [1] \<and>
   nextId (snd (run initial [dune, DeleteBooks])) = 1"
  by code_simp

text \<open>
  C5. For every sequence made of successful inserts only, from any store, the ids
  returned are the counter's successive values: one for each insert, strictly
  increasing in the order of insertion, and pairwise different. Right after a
  delete-all, a successful insert gets the id 1.
\<close>

theorem inserts_issue_increasing_ids:
  assumes "\<forall>r\<in>set reqs. validPost r" "validPost r"
  shows "issuedIds (fst (run st reqs)) = map (\<lambda>k. nextId st + int k) [0..<length reqs] \<and>
         length (issuedIds (fst (run st reqs))) = length reqs \<and>
         sorted_wrt (<) (issuedIds (fst (run st reqs))) \<and>
         distinct (issuedIds (fst (run st reqs))) \<and>
         issuedIds (fst (run st [DeleteBooks, r])) = [1]"
proof -
  note e = inserts_ids [OF assms(1), of st]
  have s: "sorted_wrt (<) (map (\<lambda>k. nextId st + int k) [0..<length reqs])"
    unfolding sorted_wrt_map by (rule sorted_wrt_mono_rel [OF _ sorted_wrt_upt]) simp
  then have d: "distinct (map (\<lambda>k. nextId st + int k) [0..<length reqs])"
    by (simp add: strict_sorted_iff)
  from validPost_handle [OF assms(2), of "snd (handle DeleteBooks st)"]
  have "issuedIds (fst (run st [DeleteBooks, r])) = [1]"
    unfolding run_Cons by (auto simp: deleteBooks_def Let_def)
  with e s d show ?thesis by simp
qed

theorem inserts_issue_increasing_ids_witness:
  "validPost dune \<and> validPost emma \<and>
   issuedIds (fst (run shelf [dune, emma, dune])) = [3, 4, 5] \<and>
   sorted_wrt (<) (issuedIds (fst (run shelf [dune, emma, dune]))) \<and>
   distinct (issuedIds (fst (run shelf [dune, emma, dune]))) \<and>
   issuedIds (fst (run shelf [DeleteBooks, emma])) = [1]"
proof -
  have 1: "\<forall>r\<in>set [dune, emma, dune]. validPost r" by code_simp
  have 2: "validPost emma" by code_simp
  have 3: "validPost dune" by code_simp
  have 4: "nextId shelf = 3" by code_simp
  have 5: "[0..<length [dune, emma, dune]] = [0, 1, 2]" by code_simp
  from inserts_issue_increasing_ids [OF 1 2, of shelf] 2 3 show ?thesis
    unfolding 4 5 by simp
qed

section \<open>Delete by id\<close>

text \<open>
  C9. In a state the server reaches, a successful delete-by-id takes exactly the record
  with the given id out of the collection and returns its id, title and author; the
  records before and after it stay as they are and in their order (what is left is the
  collection without the records of that id, one record shorter), and the id counter
  is unchanged.
\<close>

theorem delete_removes_one:
  assumes "st = snd (run initial reqs)" "deleteBook p st = (Deleted i t a, st')"
  shows "\<exists>b before after.
      parseInt p = Finite i \<and> bookId b = i \<and> title b = t \<and> author b = a \<and>
      books st = before @ b # after \<and> books st' = before @ after \<and>
      books st' = filter (\<lambda>x. bookId x \<noteq> i) (books st) \<and>
      length (books st) = Suc (length (books st')) \<and>
      nextId st' = nextId st"
proof -
  have "storeInv st" unfolding assms(1) by (rule run_storeInv [OF storeInv_initial])
  then have d: "distinct (map bookId (books st))" by (simp add: storeInv_def)
  from assms(2) have p: "parseInt p = Finite i"
    and w: "deleteBookWithId i st = (Deleted i t a, st')"
    by (auto simp: deleteBook_def deleteBookWithId_def split: option.splits number.splits if_splits)
  from w obtain b index where f: "findBookById st i = Some (b, index)"
    by (auto simp: deleteBookWithId_def split: option.splits)
  then have idx: "index < length (books st)" and b: "b = books st ! index" and bi: "bookId b = i"
    using findBookById_Some by blast+
  from w f b have ta: "title b = t" "author b = a"
    and st': "st' = st\<lparr>books := splice1 index (books st)\<rparr>"
    by (simp_all add: deleteBookWithId_def)
  let ?before = "take index (books st)" and ?after = "drop (Suc index) (books st)"
  have 1: "books st = ?before @ b # ?after" unfolding b by (rule id_take_nth_drop [OF idx])
  have 2: "books st' = ?before @ ?after" unfolding st' by (simp add: splice1_def)
  have 3: "books st' = filter (\<lambda>x. bookId x \<noteq> i) (books st)"
    using splice1_filter [OF d idx] b bi unfolding st' by simp
  have 4: "length (books st) = Suc (length (books st'))"
    unfolding 2 using idx by simp
  have 5: "nextId st' = nextId st" unfolding st' by simp
  from p bi ta 1 2 3 4 5 show ?thesis by blast
qed

theorem delete_removes_one_witness:
  "fst (deleteBook ''2'' (snd (run initial [dune, emma, dune]))) = Deleted 2 ''Emma'' ''Jane Austen'' \<and>
   map bookId (books (snd (run initial [dune, emma, dune]))) = [1, 2, 3] \<and>
   map bookId (books (snd (deleteBook ''2'' (snd (run initial [dune, emma, dune]))))) = [1, 3] \<and>
   books (snd (deleteBook ''2'' (snd (run initial [dune, emma, dune])))) =
     filter (\<lambda>x. bookId x \<noteq> 2) (books (snd (run initial [dune, emma, dune]))) \<and>
   nextId (snd (deleteBook ''2'' (snd (run initial [dune, emma, dune])))) =
     nextId (snd (run initial [dune, emma, dune]))"
proof -
  let ?S = "snd (run initial [dune, emma, dune])"
  have 0: "deleteBook ''2'' ?S = (Deleted 2 ''Emma'' ''Jane Austen'', snd (deleteBook ''2'' ?S))"
    by code_simp
  have 1: "map bookId (books ?S) = [1, 2, 3]" by code_simp
  have 2: "map bookId (books (snd (deleteBook ''2'' ?S))) = [1, 3]" by code_simp
  have 3: "fst (deleteBook ''2'' ?S) = Deleted 2 ''Emma'' ''Jane Austen''" by code_simp
  show ?thesis
    using delete_removes_one [OF refl 0] 1 2 3
    by (elim exE conjE) (intro conjI; assumption)
qed

end
